theory Spec2Isabelle
  imports Complex_Main "HOL-Library.AList" "HOL-Library.Multiset"
begin

section \<open>Data model\<close>

text \<open>
  An item is a product name, a Python \<open>str\<close>. A cell of the transactions data frame is
  either absent (\<open>NaN\<close>, for which \<open>pd.notna\<close> is false) or holds a value; the value is
  represented by its \<open>str(...)\<close> text, the only way the program looks at it.
\<close>

type_synonym item = string

type_synonym cell = "string option"

text \<open>
  The columns \<open>support\<close>, \<open>confidence\<close>, \<open>lift\<close> and \<open>conviction\<close> hold IEEE doubles.
  The program only compares them (\<open>>\<close> and \<open>>=\<close>), and comparison of doubles is exact,
  so a finite double is represented by the real number it denotes. \<open>NaN\<close> compares false
  with everything, itself included.
\<close>

datatype pyfloat = NaN | NegInf | Fin real | PosInf

text \<open>Python's \<open>a > b\<close> on floats.\<close>

fun fgt :: "pyfloat \<Rightarrow> pyfloat \<Rightarrow> bool" where
  "fgt NaN b = False"
| "fgt a NaN = False"
| "fgt PosInf b = (b \<noteq> PosInf)"
| "fgt NegInf b = False"
| "fgt (Fin x) NegInf = True"
| "fgt (Fin x) (Fin y) = (y < x)"
| "fgt (Fin x) PosInf = False"

text \<open>Python's \<open>a >= b\<close> on floats.\<close>

fun fge :: "pyfloat \<Rightarrow> pyfloat \<Rightarrow> bool" where
  "fge NaN b = False"
| "fge a NaN = False"
| "fge PosInf b = True"
| "fge a NegInf = True"
| "fge NegInf b = False"
| "fge (Fin x) (Fin y) = (y \<le> x)"
| "fge (Fin x) PosInf = False"

section \<open>Loading the transactions (\<open>load_data\<close>)\<close>

text \<open>
  \<open>str.strip()\<close> removes leading and trailing whitespace. Items are modelled as ASCII
  strings; the ASCII characters for which \<open>str.isspace\<close> holds are the ones below.
\<close>

definition is_space :: "char \<Rightarrow> bool" where
  "is_space c = (c \<in> set [CHR 0x09, CHR 0x0A, CHR 0x0B, CHR 0x0C, CHR 0x0D,
                           CHR 0x1C, CHR 0x1D, CHR 0x1E, CHR 0x1F, CHR 0x20])"

definition strip :: "string \<Rightarrow> string" where
  "strip s = rev (dropWhile is_space (rev (dropWhile is_space s)))"

text \<open>
  The comprehension
  \<^verbatim>\<open>[str(item).strip() for item in row if pd.notna(item) and str(item).strip() != '']\<close>
\<close>

definition keep_cell :: "cell \<Rightarrow> item option" where
  "keep_cell c = (case c of None \<Rightarrow> None
                  | Some s \<Rightarrow> if strip s \<noteq> [] then Some (strip s) else None)"

definition trans_row :: "cell list \<Rightarrow> item list" where
  "trans_row row = List.map_filter keep_cell row"

text \<open>\<^verbatim>\<open>transactions.append(trans[1:])\<close>, for every row of the data frame in order.\<close>

definition transactions :: "cell list list \<Rightarrow> item list list" where
  "transactions df = map (\<lambda>row. drop 1 (trans_row row)) df"

text \<open>
  A \<open>Counter\<close> (and the hash table behind \<open>value_counts\<close>) is a dictionary from items
  to counts that keeps its keys in the order of their first insertion: an association
  list. \<open>c[k] += 1\<close> on a missing key starts from 0.
\<close>

type_synonym counter = "(item \<times> nat) list"

definition incr :: "counter \<Rightarrow> item \<Rightarrow> counter" where
  "incr c k = AList.update k (case map_of c k of None \<Rightarrow> 1 | Some n \<Rightarrow> n + 1) c"

text \<open>
  \<open>sort_values(..., ascending=False)\<close> on an integer column: the rows in descending
  order of the column. pandas' default sorting kind does not fix the order of rows with
  equal keys, nor therefore which of them are among the first rows of the result; the
  model keeps them in their input order to stay executable, and no statement below is
  about the order of rows with equal keys.
\<close>

definition sort_values_desc :: "counter \<Rightarrow> counter" where
  "sort_values_desc c = sort_key (\<lambda>p. - int (snd p)) c"

text \<open>
  \<open>pd.Series(xs).value_counts()\<close>: one row per distinct value with the number of its
  occurrences, in descending order of that number.
\<close>

definition value_counts :: "item list \<Rightarrow> counter" where
  "value_counts xs = sort_values_desc (foldl incr [] xs)"

text \<open>
  \<^verbatim>\<open>all_items = [item for transaction in transactions for item in transaction]\<close> and
  \<^verbatim>\<open>item_freq = pd.Series(all_items).value_counts().reset_index()\<close>
\<close>

definition all_items :: "item list list \<Rightarrow> item list" where
  "all_items ts = concat ts"

definition item_freq :: "item list list \<Rightarrow> counter" where
  "item_freq ts = value_counts (all_items ts)"

text \<open>
  The failures of the program as values. \<open>DataFormatError\<close> is the failure the
  specification asks of loading; the program defines no such exception and no definition
  below produces it. \<open>EvalException\<close> stands for whatever \<open>eval\<close> raises on a text it
  cannot evaluate, \<open>TypeError\<close> for iterating a value that is not iterable,
  \<open>IndexError\<close> for \<open>.values[0]\<close> on an empty selection.
\<close>

datatype error = DataFormatError | EvalException | TypeError | IndexError

section \<open>Product analysis page\<close>

text \<open>
  \<^verbatim>\<open>for item in transaction:
      if item != selected_product:
          co_occurrences[item] += 1\<close>
  run for a transaction that contains the selected product.
\<close>

definition count_others :: "item \<Rightarrow> counter \<Rightarrow> item list \<Rightarrow> counter" where
  "count_others selected_product c transaction =
     foldl (\<lambda>c item. if item \<noteq> selected_product then incr c item else c) c transaction"

text \<open>The body of \<open>for transaction in transactions\<close>, with its membership test.\<close>

definition count_transaction :: "item \<Rightarrow> counter \<Rightarrow> item list \<Rightarrow> counter" where
  "count_transaction selected_product c transaction =
     (if selected_product \<in> set transaction
      then count_others selected_product c transaction else c)"

definition co_occurrences :: "item \<Rightarrow> item list list \<Rightarrow> counter" where
  "co_occurrences selected_product ts = foldl (count_transaction selected_product) [] ts"

text \<open>
  \<^verbatim>\<open>pd.DataFrame(co_occurrences.items(), ...).sort_values('co_occurrence_count',
  ascending=False).head(20)\<close>
\<close>

definition co_occur_df :: "item \<Rightarrow> item list list \<Rightarrow> counter" where
  "co_occur_df selected_product ts = take 20 (sort_values_desc (co_occurrences selected_product ts))"

text \<open>\<^verbatim>\<open>sum(1 for t in transactions if selected_product in t)\<close>\<close>

definition transactions_with :: "item \<Rightarrow> item list list \<Rightarrow> nat" where
  "transactions_with selected_product ts = length (filter (\<lambda>t. selected_product \<in> set t) ts)"

text \<open>
  \<^verbatim>\<open>item_freq[item_freq['item'] == selected_product]['frequency'].values[0]\<close>: the first
  matching row's frequency; indexing an empty selection raises.
\<close>

definition total_occurrences :: "counter \<Rightarrow> item \<Rightarrow> error + nat" where
  "total_occurrences freq selected_product =
     (case filter (\<lambda>r. fst r = selected_product) freq of
        [] \<Rightarrow> Inl IndexError
      | r # _ \<Rightarrow> Inr (snd r))"

section \<open>Association rules\<close>

text \<open>
  A row of the rules table. The record is polymorphic in what the \<open>antecedents\<close> and
  \<open>consequents\<close> columns hold: the cell as read from the file (\<open>rule_row\<close>), or the
  collection of items that the cell stands for (\<open>rule\<close>), listed in its iteration order.
\<close>

record 'c rule_of =
  antecedents :: 'c
  consequents :: 'c
  support :: pyfloat
  confidence :: pyfloat
  lift :: pyfloat
  conviction :: pyfloat

text \<open>
  What the loop holds for the \<open>antecedents\<close> or \<open>consequents\<close> column of a row after
  lines 166 and 167: a collection of product names, listed in its iteration order, or a
  value that cannot be iterated (a number, \<open>NaN\<close>).
\<close>

datatype pyvalue = Collection "item list" | Scalar

text \<open>
  A cell of these two columns as \<open>read_csv\<close> delivers it, by what
  \<open>eval(cell) if isinstance(cell, str) else cell\<close> makes of it: a text that \<open>eval\<close> turns
  into a value, a text on which \<open>eval\<close> raises, or a cell that is not text (a blank cell
  is \<open>NaN\<close>, a float) and is handed on as it is, without evaluation. The evaluator is
  Python's own and not part of the program; collections are taken to hold product names.
\<close>

datatype set_cell = Evaluates pyvalue | Raises | NotText

type_synonym rule = "item list rule_of"

type_synonym rule_row = "set_cell rule_of"


subsection \<open>Recommendations page\<close>

text \<open>
  The dictionary \<open>recommendations\<close> maps an item to the dictionary
  \<open>{'confidence': ..., 'lift': ..., 'support': ...}\<close>, here the triple in that order.
\<close>

type_synonym triple = "pyfloat \<times> pyfloat \<times> pyfloat"

type_synonym recs = "(item \<times> triple) list"

definition triple_of :: "'c rule_of \<Rightarrow> triple" where
  "triple_of row = (confidence row, lift row, support row)"

text \<open>The body of \<open>for consequent in consequents\<close> (lines 172 to 186).\<close>

definition offer :: "item list \<Rightarrow> 'c rule_of \<Rightarrow> recs \<Rightarrow> item \<Rightarrow> recs" where
  "offer selected_products row recommendations consequent =
     (if consequent \<notin> set selected_products then
        (case map_of recommendations consequent of
           None \<Rightarrow> AList.update consequent (triple_of row) recommendations
         | Some best \<Rightarrow>
             if fgt (confidence row) (fst best)
             then AList.update consequent (triple_of row) recommendations
             else recommendations)
      else recommendations)"

text \<open>
  The body of the loop over the rules once both cells are collections (lines 170 to 186):
  \<open>all(item in selected_products for item in antecedents)\<close> guards the inner loop.
\<close>

definition row_step :: "item list \<Rightarrow> recs \<Rightarrow> rule \<Rightarrow> recs" where
  "row_step selected_products recommendations row =
     (if list_all (\<lambda>item. item \<in> set selected_products) (antecedents row)
      then foldl (offer selected_products row) recommendations (consequents row)
      else recommendations)"

text \<open>
  The recommendation query on rules given as collections. \<open>if selected_products:\<close>
  (line 159) skips the loop for an empty cart: nothing is recommended then.
\<close>

definition recommend :: "item list \<Rightarrow> rule list \<Rightarrow> recs" where
  "recommend selected_products rules =
     (if selected_products \<noteq> [] then foldl (row_step selected_products) [] rules else [])"

text \<open>
  The same query on the rows as loaded. Lines 166 and 167 evaluate a cell only when it is
  text; nothing checks that the result is a collection.
\<close>

definition eval_cell :: "set_cell \<Rightarrow> error + pyvalue" where
  "eval_cell c =
     (case c of
        Evaluates v \<Rightarrow> Inr v
      | Raises \<Rightarrow> Inl EvalException
      | NotText \<Rightarrow> Inr Scalar)"

text \<open>
  One iteration of \<open>for idx, row in rules.iterrows()\<close> (lines 166 to 186). Both cells
  are evaluated first. \<open>all(... for item in antecedents)\<close> then iterates the antecedents
  and raises \<open>TypeError\<close> on a value that cannot be iterated; the consequents are iterated
  only when the test holds, so a value there that cannot be iterated raises only then.
\<close>

definition row_body :: "item list \<Rightarrow> recs \<Rightarrow> rule_row \<Rightarrow> error + recs" where
  "row_body selected_products recommendations row =
     (case eval_cell (antecedents row) of
        Inl e \<Rightarrow> Inl e
      | Inr ants \<Rightarrow>
          (case eval_cell (consequents row) of
             Inl e \<Rightarrow> Inl e
           | Inr cons \<Rightarrow>
               (case ants of
                  Scalar \<Rightarrow> Inl TypeError
                | Collection xs \<Rightarrow>
                    if list_all (\<lambda>item. item \<in> set selected_products) xs then
                      (case cons of
                         Scalar \<Rightarrow> Inl TypeError
                       | Collection ys \<Rightarrow>
                           Inr (foldl (offer selected_products row) recommendations ys))
                    else Inr recommendations)))"

text \<open>The loop over the rows; an exception leaves it at the row that raises.\<close>

fun recommendations_loop :: "item list \<Rightarrow> recs \<Rightarrow> rule_row list \<Rightarrow> error + recs" where
  "recommendations_loop selected_products recommendations [] = Inr recommendations"
| "recommendations_loop selected_products recommendations (row # rows) =
     (case row_body selected_products recommendations row of
        Inl e \<Rightarrow> Inl e
      | Inr recommendations' \<Rightarrow>
          recommendations_loop selected_products recommendations' rows)"

definition recommendations :: "item list \<Rightarrow> rule_row list \<Rightarrow> error + recs" where
  "recommendations selected_products rules =
     (if selected_products \<noteq> [] then recommendations_loop selected_products [] rules
      else Inr [])"

text \<open>The row whose two cells are texts that evaluate to the collections of a rule.\<close>

definition as_row :: "rule \<Rightarrow> rule_row" where
  "as_row r =
     \<lparr>antecedents = Evaluates (Collection (antecedents r)),
      consequents = Evaluates (Collection (consequents r)),
      support = support r, confidence = confidence r, lift = lift r,
      conviction = conviction r\<rparr>"

subsection \<open>Association rules page\<close>

text \<open>
  The selection by the boolean mask of lines 260 to 263, in the order of the table:
  \<^verbatim>\<open>rules[(rules['confidence'] >= min_confidence) & (rules['lift'] >= min_lift) &
        (rules['support'] >= min_support)]\<close>
  The page then hands the selection to \<open>sort_values('lift', ascending=False)\<close>.
\<close>

definition filter_rules ::
  "pyfloat \<Rightarrow> pyfloat \<Rightarrow> pyfloat \<Rightarrow> 'c rule_of list \<Rightarrow> 'c rule_of list" where
  "filter_rules min_confidence min_lift min_support rules =
     filter (\<lambda>r. fge (confidence r) min_confidence \<and> fge (lift r) min_lift \<and>
                 fge (support r) min_support) rules"

section \<open>The specification's wording, for comparison\<close>

text \<open>
  The transaction of a row as the specification describes it: drop the first cell, trim
  the remaining cells, drop the cells that are absent or empty after trimming.
\<close>

definition spec_transaction :: "cell list \<Rightarrow> item list" where
  "spec_transaction row =
     filter (\<lambda>s. s \<noteq> []) (List.map_filter (map_option strip) (drop 1 row))"

definition first_cell_blank :: "cell list \<Rightarrow> bool" where
  "first_cell_blank row = (case row of [] \<Rightarrow> False | c # _ \<Rightarrow> keep_cell c = None)"

text \<open>
  The resolution of one item as the specification describes it, over the rules that
  offer the item in input order: the first rule records its triple, a later rule replaces
  the recorded triple only when its confidence strictly exceeds the recorded confidence.
\<close>

fun scan :: "triple option \<Rightarrow> 'c rule_of list \<Rightarrow> triple option" where
  "scan best [] = best"
| "scan None (r # rs) = scan (Some (triple_of r)) rs"
| "scan (Some b) (r # rs) =
     scan (Some (if fgt (confidence r) (fst b) then triple_of r else b)) rs"

text \<open>
  The rules that offer an item to a cart: the antecedent is contained in the cart and the
  item is among the consequents.
\<close>

definition candidates :: "item list \<Rightarrow> item \<Rightarrow> rule list \<Rightarrow> rule list" where
  "candidates cart c rules =
     filter (\<lambda>r. set (antecedents r) \<subseteq> set cart \<and> c \<in> set (consequents r)) rules"

section \<open>Auxiliary notions\<close>

text \<open>The count a counter holds for an item, 0 when the item is not a key.\<close>

definition held :: "counter \<Rightarrow> item \<Rightarrow> nat" where
  "held c i = (case map_of c i of None \<Rightarrow> 0 | Some n \<Rightarrow> n)"

text \<open>
  The triple recorded for an item once a rule has offered it, given what was recorded
  before: the two branches of lines 173 to 186.
\<close>

definition offered :: "triple option \<Rightarrow> 'c rule_of \<Rightarrow> triple" where
  "offered cur r =
     (case cur of None \<Rightarrow> triple_of r
      | Some b \<Rightarrow> if fgt (confidence r) (fst b) then triple_of r else b)"

section \<open>Example data\<close>

text \<open>
  Rules and rows for the concrete instances below; the sets and the confidence vary, and
  the lift of a rule varies with its confidence.
\<close>

definition mk_rule :: "item list \<Rightarrow> item list \<Rightarrow> real \<Rightarrow> rule" where
  "mk_rule ants cons conf =
     \<lparr>antecedents = ants, consequents = cons, support = Fin 0.1, confidence = Fin conf,
      lift = Fin (1 + conf), conviction = Fin 1.5\<rparr>"


section \<open>Comparisons of floats\<close>

lemma fgt_irrefl: "\<not> fgt a a"
  by (cases a) auto

lemma fgt_trans: "fgt a b \<Longrightarrow> fgt b c \<Longrightarrow> fgt a c"
  by (cases a; cases b; cases c) auto

lemma fge_trans: "fge a b \<Longrightarrow> fge b c \<Longrightarrow> fge a c"
  by (cases a; cases b; cases c) auto

section \<open>Transactions\<close>

lemma map_filter_keep_cell:
  "List.map_filter keep_cell row =
     filter (\<lambda>s. s \<noteq> []) (List.map_filter (map_option strip) row)"
  by (induction row) (auto simp: List.map_filter_simps keep_cell_def split: option.splits)

lemma trans_row_cases:
  "drop 1 (trans_row row) =
     (if first_cell_blank row then drop 1 (spec_transaction row) else spec_transaction row)"
proof (cases row)
  case Nil
  then show ?thesis
    by (simp add: trans_row_def spec_transaction_def first_cell_blank_def List.map_filter_simps)
next
  case (Cons c cs)
  show ?thesis
  proof (cases "keep_cell c")
    case None
    then show ?thesis using Cons
      by (simp add: trans_row_def spec_transaction_def first_cell_blank_def
          List.map_filter_simps map_filter_keep_cell [symmetric])
  next
    case (Some s)
    then show ?thesis using Cons
      by (simp add: trans_row_def spec_transaction_def first_cell_blank_def
          List.map_filter_simps map_filter_keep_cell [symmetric])
  qed
qed

text \<open>
  C4, as amended. For every row whose first cell is present and not blank after
  trimming, \<open>load_data\<close> produces the transaction of the specification: the first cell
  dropped, the remaining cells trimmed, the cells that are absent or empty after trimming
  dropped, the others kept in their order. The equation covers the other rows too:
  the program filters before it drops, so what it drops is the first cell that survives
  the filter.
\<close>

theorem transactions_first_survivor_dropped:
  "transactions df =
     map (\<lambda>row. if first_cell_blank row then drop 1 (spec_transaction row)
                else spec_transaction row) df"
  unfolding transactions_def trans_row_cases by (rule refl)

text \<open>The row of the specification's example: \<open>["1", "milk", "", "bread"]\<close>.\<close>

theorem transactions_first_survivor_dropped_witness:
  "\<not> first_cell_blank [Some ''1'', Some ''milk'', Some '''', Some ''bread''] \<and>
   transactions [[Some ''1'', Some ''milk'', Some '''', Some ''bread'']] =
     [[''milk'', ''bread'']]"
  using transactions_first_survivor_dropped
    [of "[[Some ''1'', Some ''milk'', Some '''', Some ''bread'']]"]
  by (simp add: first_cell_blank_def spec_transaction_def keep_cell_def strip_def is_space_def
      List.map_filter_simps)

text \<open>
  C4 as stated fails on a row whose first cell is absent: the program drops \<open>milk\<close>,
  the specification's transaction keeps it.
\<close>

theorem transactions_blank_first_cell_counterexample:
  "transactions [[None, Some ''milk'', Some ''bread'']] = [[''bread'']] \<and>
   map spec_transaction [[None, Some ''milk'', Some ''bread'']] = [[''milk'', ''bread'']]"
  by (simp add: transactions_def trans_row_def spec_transaction_def keep_cell_def strip_def
      is_space_def List.map_filter_simps)

section \<open>Counters and the frequency table\<close>

lemma map_of_incr:
  "map_of (incr c k) = (map_of c)(k \<mapsto> (case map_of c k of None \<Rightarrow> 1 | Some n \<Rightarrow> n + 1))"
  by (simp add: incr_def update_conv')

lemma distinct_incr: "distinct (map fst c) \<Longrightarrow> distinct (map fst (incr c k))"
  by (simp add: incr_def distinct_update)

lemma distinct_foldl_incr:
  "distinct (map fst c) \<Longrightarrow> distinct (map fst (foldl incr c xs))"
  by (induction xs arbitrary: c) (simp_all add: distinct_incr)

lemma map_of_foldl_incr:
  "map_of (foldl incr c xs) i =
     (if i \<in> set xs then Some (held c i + count_list xs i) else map_of c i)"
proof (induction xs arbitrary: c)
  case Nil
  show ?case by simp
next
  case (Cons x xs)
  show ?case
    by (auto simp: Cons.IH map_of_incr held_def split: option.splits)
qed

lemma sort_values_desc_mset: "mset (sort_values_desc c) = mset c"
  by (simp add: sort_values_desc_def)

lemma sort_values_desc_set: "set (sort_values_desc c) = set c"
  by (simp add: sort_values_desc_def)

lemma sort_values_desc_distinct:
  "distinct (map fst (sort_values_desc c)) = distinct (map fst c)"
proof -
  have "mset (map fst (sort_values_desc c)) = mset (map fst c)"
    using sort_values_desc_mset [of c] by (metis mset_map)
  then show ?thesis by (rule mset_eq_imp_distinct_iff)
qed

lemma sort_values_desc_map_of:
  assumes "distinct (map fst c)"
  shows "map_of (sort_values_desc c) = map_of c"
  using assms
  by (intro map_of_inject_set [THEN iffD2])
    (simp_all add: sort_values_desc_distinct sort_values_desc_set)

lemma sort_values_desc_sorted:
  "sorted_wrt (\<lambda>a b. b \<le> a) (map snd (sort_values_desc c))"
proof -
  have "sorted (map (\<lambda>p. - int (snd p)) (sort_values_desc c))"
    unfolding sort_values_desc_def by (rule sorted_sort_key)
  then show ?thesis
    by (simp add: sorted_wrt_map)
qed

lemma count_list_concat:
  "count_list (concat ts) i = sum_list (map (\<lambda>t. count_list t i) ts)"
  by (induction ts) simp_all

lemma item_freq_distinct: "distinct (map fst (item_freq ts))"
proof -
  have "distinct (map fst (foldl incr [] (all_items ts)))"
    by (rule distinct_foldl_incr) simp
  then show ?thesis
    unfolding item_freq_def value_counts_def by (simp add: sort_values_desc_distinct)
qed

lemma item_freq_map_of:
  "map_of (item_freq ts) i =
     (if i \<in> set (all_items ts) then Some (sum_list (map (\<lambda>t. count_list t i) ts)) else None)"
proof -
  have d: "distinct (map fst (foldl incr [] (all_items ts)))"
    by (rule distinct_foldl_incr) simp
  have "map_of (item_freq ts) i = map_of (foldl incr [] (all_items ts)) i"
    unfolding item_freq_def value_counts_def using d by (simp add: sort_values_desc_map_of)
  also have "\<dots> = (if i \<in> set (all_items ts)
                    then Some (sum_list (map (\<lambda>t. count_list t i) ts)) else None)"
    by (simp add: map_of_foldl_incr held_def all_items_def count_list_concat)
  finally show ?thesis .
qed

text \<open>
  C7. For every list of transactions, the frequency table has one row per distinct item
  of the transactions, the row of an item holds the total number of its occurrences over
  all transactions (repetitions inside one transaction included), and the rows are in
  descending order of their counts.
\<close>

theorem item_freq_counts_occurrences:
  "map_of (item_freq ts) i =
     (if i \<in> set (all_items ts) then Some (sum_list (map (\<lambda>t. count_list t i) ts)) else None) \<and>
   distinct (map fst (item_freq ts)) \<and>
   sorted_wrt (\<lambda>a b. b \<le> a) (map snd (item_freq ts))"
proof -
  have "sorted_wrt (\<lambda>a b. b \<le> a) (map snd (item_freq ts))"
    unfolding item_freq_def value_counts_def by (rule sort_values_desc_sorted)
  with item_freq_map_of [of ts i] item_freq_distinct [of ts] show ?thesis
    by blast
qed

theorem item_freq_counts_occurrences_witness:
  "map_of (item_freq [[''a'', ''b''], [''b'', ''c'', ''b''], [''c'']]) ''b'' = Some 3 \<and>
   map_of (item_freq [[''a'', ''b''], [''b'', ''c'', ''b''], [''c'']]) ''d'' = None"
  using item_freq_counts_occurrences [of "[[''a'', ''b''], [''b'', ''c'', ''b''], [''c'']]" "''b''"]
    item_freq_counts_occurrences [of "[[''a'', ''b''], [''b'', ''c'', ''b''], [''c'']]" "''d''"]
  by (simp add: all_items_def)

section \<open>Occurrences of the selected product\<close>

lemma total_occurrences_map_of:
  "total_occurrences c k = (case map_of c k of None \<Rightarrow> Inl IndexError | Some v \<Rightarrow> Inr v)"
proof (induction c)
  case Nil
  show ?case by (simp add: total_occurrences_def)
next
  case (Cons p c)
  then show ?case
    by (cases p) (auto simp: total_occurrences_def split: option.splits list.splits)
qed

lemma count_list_pos_iff: "0 < count_list t i \<longleftrightarrow> i \<in> set t"
  by (induction t) auto

lemma transactions_with_le:
  "transactions_with i ts \<le> sum_list (map (\<lambda>t. count_list t i) ts)"
proof (induction ts)
  case Nil
  show ?case by (simp add: transactions_with_def)
next
  case (Cons t ts)
  have "i \<in> set t \<Longrightarrow> 1 \<le> count_list t i"
    using count_list_pos_iff [of t i] by simp
  with Cons show ?case by (auto simp: transactions_with_def)
qed

lemma transactions_with_eq_iff:
  "transactions_with i ts = sum_list (map (\<lambda>t. count_list t i) ts) \<longleftrightarrow>
     (\<forall>t \<in> set ts. count_list t i \<le> 1)"
proof (induction ts)
  case Nil
  show ?case by (simp add: transactions_with_def)
next
  case (Cons t ts)
  have le: "transactions_with i ts \<le> sum_list (map (\<lambda>t. count_list t i) ts)"
    by (rule transactions_with_le)
  have tw: "transactions_with i (t # ts) = (if i \<in> set t then 1 else 0) + transactions_with i ts"
    by (simp add: transactions_with_def)
  have mem: "i \<in> set t \<longleftrightarrow> 0 < count_list t i"
    by (simp add: count_list_pos_iff)
  show ?case
    using Cons.IH le unfolding tw mem by (cases "count_list t i") auto
qed

text \<open>
  C10. For every item of the frequency table, the number of transactions that contain
  the item (\<open>Transactions with this product\<close>) is at most the item's entry in the
  frequency table (\<open>Total occurrences\<close>), and the two are equal exactly when no
  transaction contains the item more than once. An item that occurs in no transaction
  has no entry: the lookup raises, and no transaction contains it.
\<close>

theorem transactions_with_le_total_occurrences:
  "(i \<in> set (all_items ts) \<longrightarrow>
      (\<exists>n. total_occurrences (item_freq ts) i = Inr n \<and>
           transactions_with i ts \<le> n \<and>
           (transactions_with i ts = n \<longleftrightarrow> (\<forall>t \<in> set ts. count_list t i \<le> 1)))) \<and>
   (i \<notin> set (all_items ts) \<longrightarrow>
      total_occurrences (item_freq ts) i = Inl IndexError \<and> transactions_with i ts = 0)"
proof (cases "i \<in> set (all_items ts)")
  case True
  then have "total_occurrences (item_freq ts) i =
      Inr (sum_list (map (\<lambda>t. count_list t i) ts))"
    by (simp add: total_occurrences_map_of item_freq_map_of)
  then show ?thesis
    using True transactions_with_le [of i ts] transactions_with_eq_iff [of i ts] by simp
next
  case False
  then have "total_occurrences (item_freq ts) i = Inl IndexError"
    by (simp add: total_occurrences_map_of item_freq_map_of)
  moreover from False have "transactions_with i ts = 0"
    by (auto simp: transactions_with_def all_items_def)
  ultimately show ?thesis using False by simp
qed

theorem transactions_with_le_total_occurrences_witness:
  "''b'' \<in> set (all_items [[''a'', ''b''], [''b'', ''c'', ''b''], [''c'']]) \<and>
   (\<exists>n. total_occurrences (item_freq [[''a'', ''b''], [''b'', ''c'', ''b''], [''c'']]) ''b'' = Inr n \<and>
        transactions_with ''b'' [[''a'', ''b''], [''b'', ''c'', ''b''], [''c'']] < n) \<and>
   ''d'' \<notin> set (all_items [[''a'', ''b''], [''b'', ''c'', ''b''], [''c'']]) \<and>
   total_occurrences (item_freq [[''a'', ''b''], [''b'', ''c'', ''b''], [''c'']]) ''d'' =
     Inl IndexError"
  using transactions_with_le_total_occurrences
      [of "''b''" "[[''a'', ''b''], [''b'', ''c'', ''b''], [''c'']]"]
    transactions_with_le_total_occurrences
      [of "''d''" "[[''a'', ''b''], [''b'', ''c'', ''b''], [''c'']]"]
  by (auto simp: all_items_def)

section \<open>Co-occurrence counts\<close>

lemma distinct_count_others:
  "distinct (map fst c) \<Longrightarrow> distinct (map fst (count_others p c t))"
  unfolding count_others_def
  by (induction t arbitrary: c) (simp_all add: distinct_incr)

lemma map_of_count_others:
  "map_of (count_others p c t) i =
     (if i \<noteq> p \<and> i \<in> set t then Some (held c i + count_list t i) else map_of c i)"
  unfolding count_others_def
proof (induction t arbitrary: c)
  case Nil
  show ?case by simp
next
  case (Cons x t)
  show ?case
    by (auto simp: Cons.IH map_of_incr held_def split: option.splits)
qed

lemma distinct_count_transaction:
  "distinct (map fst c) \<Longrightarrow> distinct (map fst (count_transaction p c t))"
  by (simp add: count_transaction_def distinct_count_others)

lemma distinct_foldl_count_transaction:
  "distinct (map fst c) \<Longrightarrow> distinct (map fst (foldl (count_transaction p) c ts))"
  by (induction ts arbitrary: c) (simp_all add: distinct_count_transaction)

lemma map_of_count_transaction:
  "map_of (count_transaction p c t) i =
     (if i \<noteq> p \<and> p \<in> set t \<and> i \<in> set t then Some (held c i + count_list t i)
      else map_of c i)"
  by (simp add: count_transaction_def map_of_count_others)

lemma map_of_foldl_count_transaction:
  "map_of (foldl (count_transaction p) c ts) i =
     (if i \<noteq> p \<and> (\<exists>t \<in> set ts. p \<in> set t \<and> i \<in> set t)
      then Some (held c i + sum_list (map (\<lambda>t. count_list t i) (filter (\<lambda>t. p \<in> set t) ts)))
      else map_of c i)"
proof (induction ts arbitrary: c)
  case Nil
  show ?case by simp
next
  case (Cons t ts)
  have z: "i \<notin> set t \<Longrightarrow> count_list t i = 0"
    by simp
  show ?case
    by (auto simp: Cons.IH map_of_count_transaction held_def z split: option.splits)
qed

lemma foldl_count_transaction_absent:
  "\<forall>t \<in> set ts. p \<notin> set t \<Longrightarrow> foldl (count_transaction p) c ts = c"
  by (induction ts arbitrary: c) (simp_all add: count_transaction_def)

lemma count_list_distinct:
  "distinct t \<Longrightarrow> count_list t i = (if i \<in> set t then 1 else 0)"
  by (induction t) auto

lemma sum_count_list_distinct:
  "\<forall>t \<in> set ts. distinct t \<Longrightarrow>
     sum_list (map (\<lambda>t. count_list t i) (filter (\<lambda>t. p \<in> set t) ts)) =
     length (filter (\<lambda>t. p \<in> set t \<and> i \<in> set t) ts)"
  by (induction ts) (auto simp: count_list_distinct)

lemma co_occurrences_entry:
  assumes "(i, n) \<in> set (co_occurrences p ts)"
  shows "i \<noteq> p \<and> (\<exists>t \<in> set ts. p \<in> set t \<and> i \<in> set t) \<and>
         n = sum_list (map (\<lambda>t. count_list t i) (filter (\<lambda>t. p \<in> set t) ts))"
proof -
  have "distinct (map fst (co_occurrences p ts))"
    unfolding co_occurrences_def by (rule distinct_foldl_count_transaction) simp
  with assms have "map_of (co_occurrences p ts) i = Some n"
    by simp
  then show ?thesis
    unfolding co_occurrences_def map_of_foldl_count_transaction
    by (simp add: held_def split: if_splits)
qed

lemma co_occurrences_keys:
  "fst ` set (co_occurrences p ts) = {i. i \<noteq> p \<and> (\<exists>t \<in> set ts. p \<in> set t \<and> i \<in> set t)}"
proof -
  have "dom (map_of (co_occurrences p ts)) =
      {i. i \<noteq> p \<and> (\<exists>t \<in> set ts. p \<in> set t \<and> i \<in> set t)}"
    unfolding co_occurrences_def dom_def map_of_foldl_count_transaction by auto
  then show ?thesis by (simp add: dom_map_of_conv_image_fst)
qed

lemma co_occur_df_subset: "set (co_occur_df p ts) \<subseteq> set (co_occurrences p ts)"
  unfolding co_occur_df_def using set_take_subset [of 20 "sort_values_desc (co_occurrences p ts)"]
  by (simp add: sort_values_desc_set)

text \<open>
  C3, as amended. For every selected product and list of transactions, the co-occurrence
  table never lists the selected product; the count of an item is the number of its
  occurrences in the transactions that contain the selected product, an item repeated
  inside such a transaction being counted once per repetition; it is the number of
  transactions that contain both when no transaction repeats an item. Each item has at
  most one row, the table is empty when no transaction contains the selected product, and
  its rows are in descending order of their counts: they are the first 20 rows of the
  sorted counter, whose keys are the items that occur in a transaction together with the
  selected product.
\<close>

theorem co_occur_df_counts_occurrences:
  "(\<forall>(i, n) \<in> set (co_occur_df p ts).
      i \<noteq> p \<and> n = sum_list (map (\<lambda>t. count_list t i) (filter (\<lambda>t. p \<in> set t) ts))) \<and>
   ((\<forall>t \<in> set ts. distinct t) \<longrightarrow>
      (\<forall>(i, n) \<in> set (co_occur_df p ts).
         n = length (filter (\<lambda>t. p \<in> set t \<and> i \<in> set t) ts))) \<and>
   distinct (map fst (co_occur_df p ts)) \<and>
   ((\<forall>t \<in> set ts. p \<notin> set t) \<longrightarrow> co_occur_df p ts = []) \<and>
   sorted_wrt (\<lambda>a b. b \<le> a) (map snd (co_occur_df p ts)) \<and>
   length (co_occur_df p ts) \<le> 20 \<and>
   fst ` set (co_occurrences p ts) =
     {i. i \<noteq> p \<and> (\<exists>t \<in> set ts. p \<in> set t \<and> i \<in> set t)} \<and>
   co_occur_df p ts = take 20 (sort_values_desc (co_occurrences p ts)) \<and>
   mset (sort_values_desc (co_occurrences p ts)) = mset (co_occurrences p ts)"
proof -
  have a: "\<forall>(i, n) \<in> set (co_occur_df p ts).
      i \<noteq> p \<and> n = sum_list (map (\<lambda>t. count_list t i) (filter (\<lambda>t. p \<in> set t) ts))"
    using co_occur_df_subset [of p ts] co_occurrences_entry [of _ _ p ts] by blast
  have b: "(\<forall>t \<in> set ts. distinct t) \<longrightarrow>
      (\<forall>(i, n) \<in> set (co_occur_df p ts).
         n = length (filter (\<lambda>t. p \<in> set t \<and> i \<in> set t) ts))"
    using a sum_count_list_distinct [of ts _ p] by auto
  have "distinct (map fst (sort_values_desc (co_occurrences p ts)))"
    unfolding co_occurrences_def sort_values_desc_distinct
    by (rule distinct_foldl_count_transaction) simp
  then have c: "distinct (map fst (co_occur_df p ts))"
    unfolding co_occur_df_def take_map [symmetric] by (rule distinct_take)
  have d: "(\<forall>t \<in> set ts. p \<notin> set t) \<longrightarrow> co_occur_df p ts = []"
    by (simp add: co_occur_df_def co_occurrences_def foldl_count_transaction_absent
        sort_values_desc_def)
  have "sorted_wrt (\<lambda>a b. b \<le> a) (take 20 (map snd (sort_values_desc (co_occurrences p ts))))"
    by (rule sorted_wrt_take) (rule sort_values_desc_sorted)
  then have e: "sorted_wrt (\<lambda>a b. b \<le> a) (map snd (co_occur_df p ts))"
    by (simp add: co_occur_df_def take_map)
  have f: "length (co_occur_df p ts) \<le> 20"
    by (simp add: co_occur_df_def)
  have g: "co_occur_df p ts = take 20 (sort_values_desc (co_occurrences p ts))"
    by (simp add: co_occur_df_def)
  from a b c d e f g co_occurrences_keys [of p ts] sort_values_desc_mset [of "co_occurrences p ts"]
  show ?thesis by blast
qed

text \<open>
  Five transactions without repeated items: with \<open>milk\<close> selected, \<open>bread\<close> is counted
  three times and \<open>eggs\<close> twice; with \<open>tea\<close> selected, the table is empty.
\<close>

theorem co_occur_df_counts_occurrences_witness:
  "list_all distinct
     [[''milk'', ''bread''], [''milk'', ''eggs''], [''bread'', ''eggs''],
      [''milk'', ''eggs'', ''bread''], [''bread'', ''milk'']] \<and>
   list_all (\<lambda>t. ''tea'' \<notin> set t)
     [[''milk'', ''bread''], [''milk'', ''eggs''], [''bread'', ''eggs''],
      [''milk'', ''eggs'', ''bread''], [''bread'', ''milk'']] \<and>
   co_occur_df ''tea''
     [[''milk'', ''bread''], [''milk'', ''eggs''], [''bread'', ''eggs''],
      [''milk'', ''eggs'', ''bread''], [''bread'', ''milk'']] = [] \<and>
   co_occur_df ''milk''
     [[''milk'', ''bread''], [''milk'', ''eggs''], [''bread'', ''eggs''],
      [''milk'', ''eggs'', ''bread''], [''bread'', ''milk'']] = [(''bread'', 3), (''eggs'', 2)]"
  using co_occur_df_counts_occurrences
      [of "''tea''" "[[''milk'', ''bread''], [''milk'', ''eggs''], [''bread'', ''eggs''],
                     [''milk'', ''eggs'', ''bread''], [''bread'', ''milk'']]"]
  by (simp add: co_occur_df_def co_occurrences_def count_transaction_def count_others_def
      incr_def sort_values_desc_def)

text \<open>
  C3 as stated fails on a transaction that repeats an item: \<open>bread\<close> occurs in one
  transaction together with \<open>milk\<close> and is counted twice.
\<close>

theorem co_occur_df_repeated_item_counterexample:
  "co_occur_df ''milk'' [[''milk'', ''bread'', ''bread'']] = [(''bread'', 2)] \<and>
   length (filter (\<lambda>t. ''milk'' \<in> set t \<and> ''bread'' \<in> set t)
             [[''milk'', ''bread'', ''bread'']]) = 1"
  by (simp add: co_occur_df_def co_occurrences_def count_transaction_def count_others_def
      incr_def sort_values_desc_def)

section \<open>Recommendations\<close>

lemma scan_Cons: "scan cur (r # rs) = scan (Some (offered cur r)) rs"
  by (cases cur) (simp_all add: offered_def)

lemma fst_triple_of: "fst (triple_of r) = confidence r"
  by (simp add: triple_of_def)

lemma offered_idem: "offered (Some (offered cur r)) r = offered cur r"
  by (cases cur) (simp_all add: offered_def fst_triple_of fgt_irrefl)

lemma map_of_offer:
  "map_of (offer cart r recs c) =
     (if c \<in> set cart then map_of recs else (map_of recs)(c \<mapsto> offered (map_of recs c) r))"
  by (auto simp: offer_def offered_def update_conv' fun_upd_idem split: option.splits)

lemma distinct_offer: "distinct (map fst recs) \<Longrightarrow> distinct (map fst (offer cart r recs c))"
  by (simp add: offer_def distinct_update split: option.splits)

lemma map_of_foldl_offer:
  "map_of (foldl (offer cart r) recs cs) x =
     (if x \<in> set cs \<and> x \<notin> set cart then Some (offered (map_of recs x) r) else map_of recs x)"
proof (induction cs arbitrary: recs)
  case Nil
  show ?case by simp
next
  case (Cons c cs)
  show ?case
    by (simp add: Cons.IH map_of_offer offered_idem)
qed

lemma distinct_foldl_offer:
  "distinct (map fst recs) \<Longrightarrow> distinct (map fst (foldl (offer cart r) recs cs))"
  by (induction cs arbitrary: recs) (simp_all add: distinct_offer)

lemma map_of_row_step:
  "map_of (row_step cart recs r) x =
     (if set (antecedents r) \<subseteq> set cart \<and> x \<in> set (consequents r) \<and> x \<notin> set cart
      then Some (offered (map_of recs x) r) else map_of recs x)"
  by (auto simp: row_step_def map_of_foldl_offer list_all_iff)

lemma distinct_row_step:
  "distinct (map fst recs) \<Longrightarrow> distinct (map fst (row_step cart recs r))"
  by (simp add: row_step_def distinct_foldl_offer)

lemma distinct_foldl_row_step:
  "distinct (map fst recs) \<Longrightarrow> distinct (map fst (foldl (row_step cart) recs rules))"
  by (induction rules arbitrary: recs) (simp_all add: distinct_row_step)

lemma map_of_foldl_row_step:
  "map_of (foldl (row_step cart) recs rules) x =
     (if x \<in> set cart then map_of recs x
      else scan (map_of recs x) (candidates cart x rules))"
proof (induction rules arbitrary: recs)
  case Nil
  show ?case by (simp add: candidates_def)
next
  case (Cons r rules)
  show ?case
    by (simp add: Cons.IH map_of_row_step candidates_def scan_Cons)
qed

lemma map_of_recommend:
  "map_of (recommend cart rules) x =
     (if cart = [] \<or> x \<in> set cart then None else scan None (candidates cart x rules))"
  by (simp add: recommend_def map_of_foldl_row_step)

lemma distinct_recommend: "distinct (map fst (recommend cart rules))"
  by (simp add: recommend_def distinct_foldl_row_step)

lemma scan_source:
  "scan cur rs = Some t \<Longrightarrow> cur = Some t \<or> (\<exists>r \<in> set rs. t = triple_of r)"
proof (induction rs arbitrary: cur)
  case Nil
  then show ?case by simp
next
  case (Cons r rs)
  from Cons.prems have "scan (Some (offered cur r)) rs = Some t"
    by (simp add: scan_Cons)
  from Cons.IH [OF this] show ?case
    by (auto simp: offered_def split: option.splits if_splits)
qed

lemma scan_append: "scan cur (xs @ ys) = scan (scan cur xs) ys"
  by (induction xs arbitrary: cur) (simp_all add: scan_Cons)

lemma scan_keeps:
  "\<forall>q \<in> set rs. \<not> fgt (confidence q) (fst b) \<Longrightarrow> scan (Some b) rs = Some b"
  by (induction rs) simp_all

lemma scan_Some: "scan (Some b) rs \<noteq> None"
  by (induction rs arbitrary: b) simp_all

lemma scan_nonempty: "rs \<noteq> [] \<Longrightarrow> scan cur rs \<noteq> None"
  by (cases rs) (simp_all add: scan_Cons scan_Some)

lemma scan_first_maximal:
  assumes pre: "\<forall>p \<in> set pre. fgt (confidence r) (confidence p)"
    and post: "\<forall>q \<in> set post. \<not> fgt (confidence q) (confidence r)"
  shows "scan None (pre @ r # post) = Some (triple_of r)"
proof -
  have "offered (scan None pre) r = triple_of r"
  proof (cases "scan None pre")
    case None
    then show ?thesis by (simp add: offered_def)
  next
    case (Some t)
    with scan_source [of None pre t] obtain p where "p \<in> set pre" "t = triple_of p"
      by auto
    with pre Some show ?thesis
      by (simp add: offered_def fst_triple_of)
  qed
  then have "scan None (pre @ r # post) = scan (Some (triple_of r)) post"
    by (simp add: scan_append scan_Cons)
  also have "\<dots> = Some (triple_of r)"
    using post by (intro scan_keeps) (simp add: fst_triple_of)
  finally show ?thesis .
qed

text \<open>
  C1. For every cart and list of rules, the recommendations map each item to the triple
  (confidence, lift, support) of one rule, found by going through the rules that offer
  the item (antecedent inside the cart, item among the consequents) in input order: the
  first one records its triple, a later one replaces the recorded triple only when its
  confidence strictly exceeds the recorded confidence. The triple is carried whole from
  the rule chosen; in particular a rule wins when its confidence exceeds that of every
  earlier candidate and no later candidate exceeds it, so ties keep the first rule seen.
  With two rules from \<open>A\<close> to \<open>B\<close> of confidences 0.9 and 0.5, the result is the same
  for both orders and holds the entry of the 0.9 rule only.
\<close>

theorem recommend_best_rule:
  "map_of (recommend cart rules) c =
     (if cart = [] \<or> c \<in> set cart then None else scan None (candidates cart c rules)) \<and>
   distinct (map fst (recommend cart rules)) \<and>
   (map_of (recommend cart rules) c = Some t \<longrightarrow>
      (\<exists>r \<in> set (candidates cart c rules). t = triple_of r)) \<and>
   (cart \<noteq> [] \<and> c \<notin> set cart \<and> candidates cart c rules = pre @ r # post \<and>
    (\<forall>p \<in> set pre. fgt (confidence r) (confidence p)) \<and>
    (\<forall>q \<in> set post. \<not> fgt (confidence q) (confidence r)) \<longrightarrow>
      map_of (recommend cart rules) c = Some (triple_of r)) \<and>
   (antecedents r1 = [A] \<and> consequents r1 = [B] \<and> confidence r1 = Fin 0.9 \<and>
    antecedents r2 = [A] \<and> consequents r2 = [B] \<and> confidence r2 = Fin 0.5 \<longrightarrow>
      recommend cart [r1, r2] = (if A \<in> set cart \<and> B \<notin> set cart then [(B, triple_of r1)] else []) \<and>
      recommend cart [r2, r1] = recommend cart [r1, r2])"
proof -
  have a: "map_of (recommend cart rules) c =
     (if cart = [] \<or> c \<in> set cart then None else scan None (candidates cart c rules))"
    by (rule map_of_recommend)
  have b: "distinct (map fst (recommend cart rules))"
    by (rule distinct_recommend)
  have c: "map_of (recommend cart rules) c = Some t \<longrightarrow>
      (\<exists>r \<in> set (candidates cart c rules). t = triple_of r)"
    using scan_source [of None "candidates cart c rules" t]
    by (auto simp: map_of_recommend split: if_splits)
  have d: "cart \<noteq> [] \<and> c \<notin> set cart \<and> candidates cart c rules = pre @ r # post \<and>
    (\<forall>p \<in> set pre. fgt (confidence r) (confidence p)) \<and>
    (\<forall>q \<in> set post. \<not> fgt (confidence q) (confidence r)) \<longrightarrow>
      map_of (recommend cart rules) c = Some (triple_of r)"
    by (simp add: map_of_recommend scan_first_maximal)
  have e: "antecedents r1 = [A] \<and> consequents r1 = [B] \<and> confidence r1 = Fin 0.9 \<and>
    antecedents r2 = [A] \<and> consequents r2 = [B] \<and> confidence r2 = Fin 0.5 \<longrightarrow>
      recommend cart [r1, r2] = (if A \<in> set cart \<and> B \<notin> set cart then [(B, triple_of r1)] else []) \<and>
      recommend cart [r2, r1] = recommend cart [r1, r2]"
    by (auto simp: recommend_def row_step_def offer_def fst_triple_of)
  from a b c d e show ?thesis by blast
qed

text \<open>The two rules from \<open>A\<close> to \<open>B\<close>, in both orders, for the cart \<open>[A]\<close>.\<close>

theorem recommend_best_rule_witness:
  "map_of (recommend [''A''] [mk_rule [''A''] [''B''] 0.5, mk_rule [''A''] [''B''] 0.9]) ''B'' =
     Some (Fin 0.9, Fin 1.9, Fin 0.1) \<and>
   recommend [''A''] [mk_rule [''A''] [''B''] 0.9, mk_rule [''A''] [''B''] 0.5] =
     [(''B'', Fin 0.9, Fin 1.9, Fin 0.1)] \<and>
   candidates [''A''] ''B'' [mk_rule [''A''] [''B''] 0.5, mk_rule [''A''] [''B''] 0.9] =
     [mk_rule [''A''] [''B''] 0.5] @ mk_rule [''A''] [''B''] 0.9 # []"
  using recommend_best_rule
    [where cart = "[''A'']" and c = "''B''" and A = "''A''" and B = "''B''"
       and rules = "[mk_rule [''A''] [''B''] 0.5, mk_rule [''A''] [''B''] 0.9]"
       and ?r1.0 = "mk_rule [''A''] [''B''] 0.9" and ?r2.0 = "mk_rule [''A''] [''B''] 0.5"
       and pre = "[mk_rule [''A''] [''B''] 0.5]" and r = "mk_rule [''A''] [''B''] 0.9"
       and post = "[]"]
  by (simp add: candidates_def mk_rule_def triple_of_def)

subsection \<open>Carts and rules without a match\<close>

lemma triple_of_as_row: "triple_of (as_row r) = triple_of r"
  by (simp add: triple_of_def as_row_def)

lemma confidence_as_row: "confidence (as_row r) = confidence r"
  by (simp add: as_row_def)

lemma offer_as_row: "offer cart (as_row r) recs c = offer cart r recs c"
  unfolding offer_def triple_of_as_row confidence_as_row by (rule refl)

lemma row_body_as_row: "row_body cart recs (as_row r) = Inr (row_step cart recs r)"
proof -
  have "foldl (offer cart (as_row r)) recs ys = foldl (offer cart r) recs ys" for ys
    by (induction ys arbitrary: recs) (simp_all add: offer_as_row)
  then show ?thesis
    by (simp add: row_body_def row_step_def eval_cell_def as_row_def)
qed

lemma recommendations_loop_as_row:
  "recommendations_loop cart recs (map as_row rules) = Inr (foldl (row_step cart) recs rules)"
  by (induction rules arbitrary: recs) (simp_all add: row_body_as_row)

lemma recommendations_as_row:
  "recommendations cart (map as_row rules) = Inr (recommend cart rules)"
  by (simp add: recommendations_def recommend_def recommendations_loop_as_row)

lemma row_step_no_match:
  "\<not> set (antecedents r) \<subseteq> set cart \<Longrightarrow> row_step cart recs r = recs"
  by (auto simp: row_step_def list_all_iff)

lemma foldl_row_step_no_match:
  "\<forall>r \<in> set rules. \<not> set (antecedents r) \<subseteq> set cart \<Longrightarrow>
     foldl (row_step cart) recs rules = recs"
  by (induction rules arbitrary: recs) (simp_all add: row_step_no_match)

text \<open>
  C8. For every cart and list of rules, no item of the cart is a key of the
  recommendations; when the cart is empty, or no rule has its antecedent inside the cart,
  the recommendations are empty; and the query on the rows of evaluated rules returns its
  recommendations, not a failure.
\<close>

theorem recommend_excludes_cart:
  "(c \<in> set cart \<longrightarrow>
      map_of (recommend cart rules) c = None \<and> c \<notin> fst ` set (recommend cart rules)) \<and>
   (cart = [] \<or> (\<forall>r \<in> set rules. \<not> set (antecedents r) \<subseteq> set cart) \<longrightarrow>
      recommend cart rules = []) \<and>
   recommendations cart (map as_row rules) = Inr (recommend cart rules)"
proof -
  have a: "c \<in> set cart \<longrightarrow>
      map_of (recommend cart rules) c = None \<and> c \<notin> fst ` set (recommend cart rules)"
    by (simp add: map_of_recommend map_of_eq_None_iff [symmetric])
  have b: "cart = [] \<or> (\<forall>r \<in> set rules. \<not> set (antecedents r) \<subseteq> set cart) \<longrightarrow>
      recommend cart rules = []"
    by (auto simp: recommend_def foldl_row_step_no_match)
  from a b recommendations_as_row [of cart rules] show ?thesis by blast
qed

theorem recommend_excludes_cart_witness:
  "''A'' \<in> set [''A''] \<and>
   map_of (recommend [''A''] [mk_rule [''A''] [''A'', ''B''] 0.9]) ''A'' = None \<and>
   recommend [] [mk_rule [] [''B''] 0.9] = [] \<and>
   \<not> set (antecedents (mk_rule [''A''] [''B''] 0.9)) \<subseteq> set [''C''] \<and>
   recommend [''C''] [mk_rule [''A''] [''B''] 0.9] = [] \<and>
   recommendations [''C''] (map as_row [mk_rule [''A''] [''B''] 0.9]) = Inr []"
  using recommend_excludes_cart [of "''A''" "[''A'']" "[mk_rule [''A''] [''A'', ''B''] 0.9]"]
    recommend_excludes_cart [of "''A''" "[]" "[mk_rule [] [''B''] 0.9]"]
    recommend_excludes_cart [of "''A''" "[''C'']" "[mk_rule [''A''] [''B''] 0.9]"]
  by (simp add: mk_rule_def)

subsection \<open>Rules with an empty antecedent\<close>

text \<open>
  C9, as amended. The test \<open>all(item in selected_products for item in antecedents)\<close>
  holds for a rule with an empty antecedent whatever the cart, and one pass of the loop
  body then records a recommendation for each of the rule's consequents outside the
  cart; no check of emptiness is made. Hence for every cart that is not empty, such a
  rule is a candidate for each of its consequents outside the cart, and each of them
  receives a recommendation. For the empty cart the page does not run the loop.
\<close>

theorem empty_antecedent_matches:
  "(antecedents r = [] \<and> c \<in> set (consequents r) \<and> c \<notin> set cart \<longrightarrow>
      list_all (\<lambda>item. item \<in> set cart) (antecedents r) \<and>
      map_of (row_step cart recs r) c \<noteq> None) \<and>
   (cart \<noteq> [] \<and> r \<in> set rules \<and> antecedents r = [] \<and> c \<in> set (consequents r) \<and>
    c \<notin> set cart \<longrightarrow>
      r \<in> set (candidates cart c rules) \<and> map_of (recommend cart rules) c \<noteq> None)"
proof -
  have a: "antecedents r = [] \<and> c \<in> set (consequents r) \<and> c \<notin> set cart \<longrightarrow>
      list_all (\<lambda>item. item \<in> set cart) (antecedents r) \<and>
      map_of (row_step cart recs r) c \<noteq> None"
    by (simp add: map_of_row_step)
  have b: "cart \<noteq> [] \<and> r \<in> set rules \<and> antecedents r = [] \<and> c \<in> set (consequents r) \<and>
    c \<notin> set cart \<longrightarrow>
      r \<in> set (candidates cart c rules) \<and> map_of (recommend cart rules) c \<noteq> None"
  proof (intro impI, elim conjE)
    assume h: "cart \<noteq> []" "r \<in> set rules" "antecedents r = []" "c \<in> set (consequents r)"
      "c \<notin> set cart"
    then have m: "r \<in> set (candidates cart c rules)"
      by (simp add: candidates_def)
    then have "candidates cart c rules \<noteq> []" by auto
    then have "scan None (candidates cart c rules) \<noteq> None"
      by (rule scan_nonempty)
    with h m show "r \<in> set (candidates cart c rules) \<and> map_of (recommend cart rules) c \<noteq> None"
      by (simp add: map_of_recommend)
  qed
  from a b show ?thesis by blast
qed

theorem empty_antecedent_matches_witness:
  "[''C''] \<noteq> [] \<and> antecedents (mk_rule [] [''B''] 0.5) = [] \<and>
   ''B'' \<in> set (consequents (mk_rule [] [''B''] 0.5)) \<and> ''B'' \<notin> set [''C''] \<and>
   map_of (recommend [''C''] [mk_rule [''A''] [''D''] 0.9, mk_rule [] [''B''] 0.5]) ''B'' \<noteq> None \<and>
   map_of (row_step [] [] (mk_rule [] [''B''] 0.5)) ''B'' \<noteq> None"
  using empty_antecedent_matches
    [of "mk_rule [] [''B''] 0.5" "''B''" "[''C'']" "[]"
        "[mk_rule [''A''] [''D''] 0.9, mk_rule [] [''B''] 0.5]"]
    empty_antecedent_matches
    [of "mk_rule [] [''B''] 0.5" "''B''" "[]" "[]" "[]"]
  by (simp add: mk_rule_def)

text \<open>
  C9 as stated fails for the empty cart: the rule has an empty antecedent and \<open>B\<close> is
  not in the cart, yet \<open>B\<close> receives no recommendation.
\<close>

theorem empty_cart_no_recommendation_counterexample:
  "antecedents (mk_rule [] [''B''] 0.5) = [] \<and>
   ''B'' \<in> set (consequents (mk_rule [] [''B''] 0.5)) \<and> ''B'' \<notin> set [] \<and>
   map_of (recommend [] [mk_rule [] [''B''] 0.5]) ''B'' = None"
  by (simp add: recommend_def mk_rule_def)

section \<open>Loading and decoding the rules\<close>











section \<open>Selecting rules by thresholds\<close>

text \<open>
  C6. The selection keeps exactly the rules whose confidence, lift and support are each
  \<open>>=\<close> the corresponding threshold, so a rule that meets the three thresholds with
  equality is kept; and it is monotone: when each threshold of a second selection is
  \<open>>=\<close> the corresponding threshold of a first one, every rule of the second selection
  is in the first, and the second selection is the result of selecting from the first.
\<close>

theorem filter_rules_inclusive_monotone:
  "(r \<in> set (filter_rules c l s rules) \<longleftrightarrow>
      r \<in> set rules \<and> fge (confidence r) c \<and> fge (lift r) l \<and> fge (support r) s) \<and>
   (r \<in> set rules \<and> confidence r = Fin x \<and> lift r = Fin y \<and> support r = Fin z \<longrightarrow>
      r \<in> set (filter_rules (Fin x) (Fin y) (Fin z) rules)) \<and>
   (fge c2 c1 \<and> fge l2 l1 \<and> fge s2 s1 \<longrightarrow>
      set (filter_rules c2 l2 s2 rules) \<subseteq> set (filter_rules c1 l1 s1 rules) \<and>
      filter_rules c2 l2 s2 (filter_rules c1 l1 s1 rules) = filter_rules c2 l2 s2 rules)"
proof -
  have a: "r \<in> set (filter_rules c l s rules) \<longleftrightarrow>
      r \<in> set rules \<and> fge (confidence r) c \<and> fge (lift r) l \<and> fge (support r) s"
    by (simp add: filter_rules_def)
  have b: "r \<in> set rules \<and> confidence r = Fin x \<and> lift r = Fin y \<and> support r = Fin z \<longrightarrow>
      r \<in> set (filter_rules (Fin x) (Fin y) (Fin z) rules)"
    by (simp add: filter_rules_def)
  have c: "fge c2 c1 \<and> fge l2 l1 \<and> fge s2 s1 \<longrightarrow>
      set (filter_rules c2 l2 s2 rules) \<subseteq> set (filter_rules c1 l1 s1 rules) \<and>
      filter_rules c2 l2 s2 (filter_rules c1 l1 s1 rules) = filter_rules c2 l2 s2 rules"
  proof (intro impI, elim conjE)
    assume h: "fge c2 c1" "fge l2 l1" "fge s2 s1"
    have imp: "\<And>q. fge (confidence q) c2 \<and> fge (lift q) l2 \<and> fge (support q) s2 \<Longrightarrow>
        fge (confidence q) c1 \<and> fge (lift q) l1 \<and> fge (support q) s1"
      using h by (blast intro: fge_trans)
    show "set (filter_rules c2 l2 s2 rules) \<subseteq> set (filter_rules c1 l1 s1 rules) \<and>
      filter_rules c2 l2 s2 (filter_rules c1 l1 s1 rules) = filter_rules c2 l2 s2 rules"
      using imp by (auto simp: filter_rules_def intro: filter_cong)
  qed
  from a b c show ?thesis by blast
qed

theorem filter_rules_inclusive_monotone_witness:
  "fge (Fin 0.5) (Fin 0.3) \<and> fge (Fin 1.5) (Fin 1.2) \<and> fge (Fin 0.1) (Fin 0.01) \<and>
   mk_rule [''A''] [''B''] 0.5 \<in>
     set (filter_rules (Fin 0.5) (Fin 1.5) (Fin 0.1)
            [mk_rule [''A''] [''B''] 0.5, mk_rule [''A''] [''C''] 0.4]) \<and>
   mk_rule [''A''] [''C''] 0.4 \<notin>
     set (filter_rules (Fin 0.5) (Fin 1.5) (Fin 0.1)
            [mk_rule [''A''] [''B''] 0.5, mk_rule [''A''] [''C''] 0.4]) \<and>
   set (filter_rules (Fin 0.5) (Fin 1.5) (Fin 0.1)
          [mk_rule [''A''] [''B''] 0.5, mk_rule [''A''] [''C''] 0.4]) \<subseteq>
   set (filter_rules (Fin 0.3) (Fin 1.2) (Fin 0.01)
          [mk_rule [''A''] [''B''] 0.5, mk_rule [''A''] [''C''] 0.4])"
  using filter_rules_inclusive_monotone
    [where r = "mk_rule [''A''] [''B''] 0.5" and x = "0.5" and y = "1.5" and z = "0.1"
       and c = "Fin 0.5" and l = "Fin 1.5" and s = "Fin 0.1"
       and ?c2.0 = "Fin 0.5" and ?l2.0 = "Fin 1.5" and ?s2.0 = "Fin 0.1"
       and ?c1.0 = "Fin 0.3" and ?l1.0 = "Fin 1.2" and ?s1.0 = "Fin 0.01"
       and rules = "[mk_rule [''A''] [''B''] 0.5, mk_rule [''A''] [''C''] 0.4]"]
    filter_rules_inclusive_monotone
    [where r = "mk_rule [''A''] [''C''] 0.4"
       and c = "Fin 0.5" and l = "Fin 1.5" and s = "Fin 0.1"
       and rules = "[mk_rule [''A''] [''B''] 0.5, mk_rule [''A''] [''C''] 0.4]"]
  by (simp add: mk_rule_def)

end
